theory Spec2Isabelle
  imports Complex_Main "HOL-Library.Sublist" "HOL-Library.List_Lexorder" "HOL-Library.Multiset"
begin

section \<open>Python strings\<close>

text \<open>
  A Python \<^verbatim>\<open>str\<close> is a sequence of Unicode code points. The character classes
  \<^verbatim>\<open>str.isalnum\<close>, \<^verbatim>\<open>str.isalpha\<close> and the whitespace that \<^verbatim>\<open>str.strip\<close> removes are
  fixed here on the ASCII range; beyond it they come from the Unicode tables of the
  interpreter, which are a parameter of the model.
\<close>

type_synonym codepoint = nat
type_synonym pystr = "codepoint list"

definition py :: "string \<Rightarrow> pystr" where
  "py s = map of_char s"

record unicode_db =
  u_isalpha :: "codepoint \<Rightarrow> bool"
  u_isalnum :: "codepoint \<Rightarrow> bool"
  u_isspace :: "codepoint \<Rightarrow> bool"

definition isalpha :: "unicode_db \<Rightarrow> codepoint \<Rightarrow> bool" where
  "isalpha U c =
     (if c < 128 then (65 \<le> c \<and> c \<le> 90) \<or> (97 \<le> c \<and> c \<le> 122) else u_isalpha U c)"

definition isalnum :: "unicode_db \<Rightarrow> codepoint \<Rightarrow> bool" where
  "isalnum U c =
     (if c < 128 then (48 \<le> c \<and> c \<le> 57) \<or> (65 \<le> c \<and> c \<le> 90) \<or> (97 \<le> c \<and> c \<le> 122)
      else u_isalnum U c)"

definition isspace :: "unicode_db \<Rightarrow> codepoint \<Rightarrow> bool" where
  "isspace U c =
     (if c < 128 then (9 \<le> c \<and> c \<le> 13) \<or> (28 \<le> c \<and> c \<le> 32) else u_isspace U c)"

definition strip :: "unicode_db \<Rightarrow> pystr \<Rightarrow> pystr" where
  "strip U s = rev (dropWhile (isspace U) (rev (dropWhile (isspace U) s)))"

text \<open>The database used for concrete ASCII inputs: nothing beyond ASCII is classified.\<close>

definition ascii_only :: unicode_db where
  "ascii_only = \<lparr>u_isalpha = (\<lambda>_. False), u_isalnum = (\<lambda>_. False), u_isspace = (\<lambda>_. False)\<rparr>"

section \<open>Log tables (\<^verbatim>\<open>tname\<close> in monitor.py, \<^verbatim>\<open>table_name\<close> in webgui.py)\<close>

definition underscore :: codepoint where
  "underscore = 95"

definition tname :: "unicode_db \<Rightarrow> pystr \<Rightarrow> pystr" where
  "tname U name =
     (let safe = map (\<lambda>ch. if isalnum U ch \<or> ch = underscore then ch else underscore) (strip U name);
          safe = (if safe = [] \<or> \<not> (isalpha U (hd safe) \<or> hd safe = underscore)
                  then py ''t_'' @ safe else safe)
      in py ''log_'' @ safe)"

text \<open>
  The result sink: one table per table identifier. \<^verbatim>\<open>record\<close> inserts into the table
  \<^verbatim>\<open>tname(name)\<close>; the status API reads the newest row of \<^verbatim>\<open>tname(n)\<close>. A table
  that does not exist makes sqlite raise \<^verbatim>\<open>OperationalError\<close>.
\<close>

datatype py_error = OperationalError | IndexError | KeyError | YAMLError | OSError

record log_row =
  row_ts :: pystr
  row_status :: pystr
  row_latency :: "int option"
  row_message :: pystr

type_synonym db = "pystr \<rightharpoonup> log_row list"

definition record_row :: "unicode_db \<Rightarrow> pystr \<Rightarrow> log_row \<Rightarrow> db \<Rightarrow> py_error + db" where
  "record_row U name r d =
     (case d (tname U name) of
        None \<Rightarrow> Inl OperationalError
      | Some rows \<Rightarrow> Inr (d(tname U name \<mapsto> rows @ [r])))"

definition latest_row :: "unicode_db \<Rightarrow> pystr \<Rightarrow> db \<Rightarrow> py_error + log_row option" where
  "latest_row U name d =
     (case d (tname U name) of
        None \<Rightarrow> Inl OperationalError
      | Some rows \<Rightarrow> Inr (if rows = [] then None else Some (last rows)))"

section \<open>Probe drivers\<close>

text \<open>
  A probe returns the triple \<^verbatim>\<open>(ok, msg, lat)\<close>. The network is the environment: what
  it answered is an input of the model, and the elapsed milliseconds that the driver
  measures come with it.
\<close>

type_synonym probe_result = "bool \<times> pystr \<times> int"

text \<open>Python's substring test \<^verbatim>\<open>sub in txt\<close>.\<close>

fun str_contains :: "'a list \<Rightarrow> 'a list \<Rightarrow> bool" where
  "str_contains sub [] = (sub = [])"
| "str_contains sub (c # cs) = (prefix sub (c # cs) \<or> str_contains sub cs)"

text \<open>
  \<^verbatim>\<open>probe_rtsp\<close>: either up to 512 bytes arrived within both timeouts (given here
  decoded, as \<^verbatim>\<open>data.decode(errors="ignore")\<close> leaves them), or
  \<^verbatim>\<open>asyncio.TimeoutError\<close> was raised, or another exception with text \<^verbatim>\<open>e\<close>.
\<close>

datatype rtsp_io = Replied pystr int | RtspTimeout int | RtspRaised pystr int

definition probe_rtsp :: "rtsp_io \<Rightarrow> probe_result" where
  "probe_rtsp io =
     (case io of
        Replied txt lat \<Rightarrow>
          if str_contains (py ''RTSP/1.0 200'') txt then (True, py ''RTSP 200'', lat)
          else if str_contains (py ''RTSP/1.0 401'') txt then (True, py ''RTSP 401 Unauthorized'', lat)
          else if str_contains (py ''RTSP/1.0 403'') txt then (True, py ''RTSP 403 Forbidden'', lat)
          else if str_contains (py ''RTSP/1.0 404'') txt then (True, py ''RTSP 404 Not Found'', lat)
          else if str_contains (py ''RTSP/1.0 454'') txt
            then (True, py ''RTSP 454 Session Not Found'', lat)
          else (False, py ''RTSP not 200'', lat)
      | RtspTimeout lat \<Rightarrow> (False, py ''timeout'', lat)
      | RtspRaised e lat \<Rightarrow> (False, py ''error:'' @ e, lat))"

text \<open>Decimal rendering of a status code, as the f-string \<^verbatim>\<open>f"HTTP {r.status}"\<close> does.\<close>

fun str_nat :: "nat \<Rightarrow> pystr" where
  "str_nat n = (if n < 10 then [48 + n] else str_nat (n div 10) @ [48 + n mod 10])"

declare str_nat.simps [simp del]

text \<open>
  \<^verbatim>\<open>probe_http\<close>: each of the two \<^verbatim>\<open>async with\<close> blocks either runs to its
  \<^verbatim>\<open>return\<close> with the status of the response, or raises \<^verbatim>\<open>asyncio.TimeoutError\<close>, or
  raises another exception. The GET block reads 64 bytes of the body before it returns.
  The requests issued are returned beside the result.
\<close>

datatype http_io = Status nat int | HttpTimeout int | HttpRaised pystr int

datatype http_request = HEAD | GET nat

record http_env =
  head_io :: http_io
  get_io :: http_io

definition http_status_result :: "nat \<Rightarrow> int \<Rightarrow> probe_result" where
  "http_status_result status lat = (200 \<le> status \<and> status < 400, py ''HTTP '' @ str_nat status, lat)"

definition probe_http :: "http_env \<Rightarrow> probe_result \<times> http_request list" where
  "probe_http env =
     (case head_io env of
        Status status lat \<Rightarrow> (http_status_result status lat, [HEAD])
      | _ \<Rightarrow>
         (case get_io env of
            Status status lat \<Rightarrow> (http_status_result status lat, [HEAD, GET 64])
          | HttpTimeout lat \<Rightarrow> ((False, py ''timeout'', lat), [HEAD, GET 64])
          | HttpRaised e lat \<Rightarrow> ((False, py ''error:'' @ e, lat), [HEAD, GET 64])))"

text \<open>\<^verbatim>\<open>one_frame\<close>: \<^verbatim>\<open>cap.read()\<close> returned its flag, or OpenCV raised.\<close>

datatype frame_io = FrameRead bool int | FrameRaised pystr int

definition one_frame :: "frame_io \<Rightarrow> probe_result" where
  "one_frame io =
     (case io of
        FrameRead ok lat \<Rightarrow> if ok then (True, py ''ok'', lat) else (False, py ''no frame'', lat)
      | FrameRaised e lat \<Rightarrow> (False, py ''cv2err:'' @ e, lat))"

section \<open>Streams and lanes\<close>

text \<open>
  Class \<^verbatim>\<open>Stream\<close>. Times are readings of \<^verbatim>\<open>time.monotonic()\<close>, taken as exact
  rationals. \<^verbatim>\<open>url.lower()\<close> is modelled on ASCII letters; no code point beyond ASCII
  lowers to a character of \<^verbatim>\<open>rtsp://\<close>, so the prefix test is not affected.
\<close>

record stream =
  name :: pystr
  url :: pystr
  is_rtsp :: bool
  fails :: nat
  backoff_until :: rat

definition lower :: "pystr \<Rightarrow> pystr" where
  "lower s = map (\<lambda>c. if 65 \<le> c \<and> c \<le> 90 then c + 32 else c) s"

definition url_is_rtsp :: "pystr \<Rightarrow> bool" where
  "url_is_rtsp u = prefix (py ''rtsp://'') (lower u)"

definition Stream :: "pystr \<Rightarrow> pystr \<Rightarrow> stream" where
  "Stream n u = \<lparr>name = n, url = u, is_rtsp = url_is_rtsp u, fails = 0, backoff_until = 0\<rparr>"

text \<open>Class \<^verbatim>\<open>Lane\<close>; \<^verbatim>\<open>lane_i\<close> is its cursor \<^verbatim>\<open>self.i\<close>.\<close>

record lane =
  kind :: string
  items :: "stream list"
  lane_i :: nat

definition Lane :: "string \<Rightarrow> lane" where
  "Lane k = \<lparr>kind = k, items = [], lane_i = 0\<rparr>"

definition lane_set :: "stream list \<Rightarrow> lane \<Rightarrow> lane" where
  "lane_set xs l = l\<lparr>items := xs, lane_i := 0\<rparr>"

text \<open>
  \<^verbatim>\<open>Lane.next_rr\<close>, run under the lane's lock. The \<^verbatim>\<open>for\<close> loop over
  \<^verbatim>\<open>range(len(self.items))\<close> is the recursion on the first argument;
  \<^verbatim>\<open>self.items[self.i]\<close> raises \<^verbatim>\<open>IndexError\<close> out of range.
\<close>

fun next_rr_loop :: "nat \<Rightarrow> rat \<Rightarrow> stream list \<Rightarrow> nat \<Rightarrow> py_error + (stream option \<times> nat)" where
  "next_rr_loop 0 now xs j = Inr (None, j)"
| "next_rr_loop (Suc k) now xs j =
     (if j < length xs then
        (let s = xs ! j; j' = (j + 1) mod length xs
         in if now \<ge> backoff_until s then Inr (Some s, j') else next_rr_loop k now xs j')
      else Inl IndexError)"

definition next_rr :: "rat \<Rightarrow> lane \<Rightarrow> py_error + (stream option \<times> lane)" where
  "next_rr now l =
     (if items l = [] then Inr (None, l)
      else (case next_rr_loop (length (items l)) now (items l) (lane_i l) of
              Inl e \<Rightarrow> Inl e
            | Inr (r, j) \<Rightarrow> Inr (r, l\<lparr>lane_i := j\<rparr>)))"

text \<open>Successive calls of \<^verbatim>\<open>next_rr\<close> at the given clock readings, results in call order.\<close>

fun next_rr_calls :: "rat list \<Rightarrow> lane \<Rightarrow> py_error + (stream option list \<times> lane)" where
  "next_rr_calls [] l = Inr ([], l)"
| "next_rr_calls (now # nows) l =
     (case next_rr now l of
        Inl e \<Rightarrow> Inl e
      | Inr (r, l') \<Rightarrow>
         (case next_rr_calls nows l' of
            Inl e \<Rightarrow> Inl e
          | Inr (rs, l'') \<Rightarrow> Inr (r # rs, l'')))"

section \<open>Scheduler\<close>

text \<open>
  The configuration as \<^verbatim>\<open>read_cfg\<close> returns it: \<^verbatim>\<open>heartbeat_seconds\<close> may be absent
  (\<^verbatim>\<open>cfg.get("heartbeat_seconds", 10)\<close>), \<^verbatim>\<open>streams\<close> is the list of name and url
  pairs. \<^verbatim>\<open>Scheduler.state\<close> is a dict in insertion order, an association list here.
\<close>

record cfg =
  heartbeat_seconds :: "int option"
  timezone :: pystr
  streams :: "(pystr \<times> pystr) list"

record scheduler =
  sched_cfg :: cfg
  state :: "(pystr \<times> stream) list"
  rtsp :: lane
  http :: lane

definition dict_set :: "'k \<Rightarrow> 'v \<Rightarrow> ('k \<times> 'v) list \<Rightarrow> ('k \<times> 'v) list" where
  "dict_set k v d =
     (if k \<in> fst ` set d then map (\<lambda>(k', v'). if k' = k then (k', v) else (k', v')) d
      else d @ [(k, v)])"

definition rebuild :: "scheduler \<Rightarrow> scheduler" where
  "rebuild sched =
     (let rtsp_items = filter is_rtsp (map snd (state sched));
          http_items = filter (\<lambda>v. \<not> is_rtsp v) (map snd (state sched))
      in sched\<lparr>rtsp := lane_set (sort_key name rtsp_items) (rtsp sched),
               http := lane_set (sort_key name http_items) (http sched)\<rparr>)"

definition Scheduler :: "cfg \<Rightarrow> scheduler" where
  "Scheduler c =
     rebuild \<lparr>sched_cfg = c,
              state = foldl (\<lambda>d (n, u). dict_set n (Stream n u) d) [] (streams c),
              rtsp = Lane ''rtsp'', http = Lane ''mjpeg''\<rparr>"

text \<open>
  The body of \<^verbatim>\<open>Scheduler.reloader\<close> for a configuration that differs. The
  \<^verbatim>\<open>Stream\<close> objects of \<^verbatim>\<open>state\<close> are the objects in the lanes' lists, and a worker
  updates them in place; here \<^verbatim>\<open>state\<close> holds them and \<^verbatim>\<open>rebuild\<close> copies them into
  the lanes. \<^verbatim>\<open>init_db\<close>, which creates the tables of new streams, is left out.
\<close>

fun sync_streams :: "(pystr \<times> pystr) list \<Rightarrow> (pystr \<times> stream) list \<Rightarrow> (pystr \<times> stream) list" where
  "sync_streams [] d = d"
| "sync_streams ((n, u) # ss) d =
     sync_streams ss
       (case map_of d n of
          Some st \<Rightarrow> dict_set n (st\<lparr>url := u, is_rtsp := url_is_rtsp u\<rparr>) d
        | None \<Rightarrow> dict_set n (Stream n u) d)"

definition remove_missing :: "pystr set \<Rightarrow> (pystr \<times> stream) list \<Rightarrow> (pystr \<times> stream) list" where
  "remove_missing new_names d = filter (\<lambda>(n, _). n \<in> new_names) d"

definition reconcile :: "cfg \<Rightarrow> scheduler \<Rightarrow> scheduler" where
  "reconcile new sched =
     (if new \<noteq> sched_cfg sched then
        rebuild (sched\<lparr>sched_cfg := new,
                       state := remove_missing (set (map fst (streams new)))
                                  (sync_streams (streams new) (state sched))\<rparr>)
      else sched)"

text \<open>
  \<^verbatim>\<open>Scheduler.reloader\<close>: one element of the list per tick, the outcome of
  \<^verbatim>\<open>read_cfg()\<close> at that tick (the configuration, or the exception that
  \<^verbatim>\<open>open\<close> or \<^verbatim>\<open>yaml.safe_load\<close> raised). The task has no handler: an exception
  ends the coroutine.
\<close>

datatype task = Running scheduler | Ended py_error scheduler

fun reloader :: "(py_error + cfg) list \<Rightarrow> scheduler \<Rightarrow> task" where
  "reloader [] sched = Running sched"
| "reloader (Inl e # ticks) sched = Ended e sched"
| "reloader (Inr new # ticks) sched = reloader ticks (reconcile new sched)"

text \<open>
  \<^verbatim>\<open>load_config_with_mqtt_support\<close>, the loader used at start-up: it catches every
  exception of reading and parsing and returns a default configuration; a
  configuration that was read gets the default heartbeat of 20 when it has none.
\<close>

definition load_config_with_mqtt_support :: "py_error + cfg \<Rightarrow> cfg" where
  "load_config_with_mqtt_support r =
     (case r of
        Inl e \<Rightarrow> \<lparr>heartbeat_seconds = Some 20, timezone = py ''UTC'', streams = []\<rparr>
      | Inr c \<Rightarrow> c\<lparr>heartbeat_seconds :=
                      Some (case heartbeat_seconds c of None \<Rightarrow> 20 | Some h \<Rightarrow> h)\<rparr>)"

text \<open>
  \<^verbatim>\<open>Scheduler.workers_and_delay\<close>; \<^verbatim>\<open>MAX_WORKERS_PER_TYPE\<close> is read from the
  environment and is a parameter. The configured heartbeat is an integer (what
  \<^verbatim>\<open>int()\<close> returns); the division and \<^verbatim>\<open>math.ceil\<close> are exact.
\<close>

definition workers_and_delay :: "int \<Rightarrow> cfg \<Rightarrow> lane \<Rightarrow> int \<times> rat" where
  "workers_and_delay MAX_WORKERS_PER_TYPE c l =
     (let n = int (length (items l));
          H = max 5 (case heartbeat_seconds c of None \<Rightarrow> 10 | Some h \<Rightarrow> h)
      in if n = 0 then (0, 1)
         else (let target = of_int n / of_int H;
                   W = max 1 (min \<lceil>target\<rceil> MAX_WORKERS_PER_TYPE);
                   delay = max (1 / 20) (of_int W / target)
               in (W, delay)))"




section \<open>Worker loop\<close>

text \<open>
  One probe cycle of \<^verbatim>\<open>worker_loop\<close> on the stream \<^verbatim>\<open>s\<close> that \<^verbatim>\<open>next_rr\<close> returned:
  the protocol-matched probe, the frame fetch after a failure of a stream with three
  or more failures, the update of the stream and the row handed to \<^verbatim>\<open>record\<close>.
  The environment gives what the network answered, the reading of
  \<^verbatim>\<open>time.monotonic()\<close> in the failure branch and the timestamp of the row.
\<close>

record probe_env =
  rtsp_io :: rtsp_io
  http_io :: http_env
  frame_io :: frame_io
  t_update :: rat
  ts_record :: pystr

datatype driver_call = ProbeRtsp | ProbeHttp "http_request list" | OneFrame

definition run_probe :: "probe_env \<Rightarrow> stream \<Rightarrow> probe_result \<times> driver_call list" where
  "run_probe env s =
     (let (r, calls) =
            (if is_rtsp s then (probe_rtsp (rtsp_io env), [ProbeRtsp])
             else (let (r, reqs) = probe_http (http_io env) in (r, [ProbeHttp reqs])))
      in if \<not> fst r \<and> fails s \<ge> 3 then
           (let r2 = one_frame (frame_io env)
            in (if fst r2 then r2 else r, calls @ [OneFrame]))
         else (r, calls))"

definition apply_outcome :: "rat \<Rightarrow> probe_env \<Rightarrow> probe_result \<Rightarrow> stream \<Rightarrow> stream \<times> log_row" where
  "apply_outcome BACKOFF_BASE env r s =
     (case r of (ok, msg, lat) \<Rightarrow>
        if ok then
          (s\<lparr>fails := 0, backoff_until := 0\<rparr>,
           \<lparr>row_ts = ts_record env, row_status = py ''ok'', row_latency = Some lat, row_message = msg\<rparr>)
        else
          (let f = fails s + 1;
               back = BACKOFF_BASE * 2 ^ min 5 f
           in (s\<lparr>fails := f, backoff_until := t_update env + min 90 back\<rparr>,
               \<lparr>row_ts = ts_record env, row_status = py ''fail'', row_latency = Some lat,
                row_message = msg\<rparr>)))"

definition probe_cycle :: "rat \<Rightarrow> probe_env \<Rightarrow> stream \<Rightarrow> stream \<times> log_row \<times> driver_call list" where
  "probe_cycle BACKOFF_BASE env s =
     (let (r, calls) = run_probe env s;
          (s', row) = apply_outcome BACKOFF_BASE env r s
      in (s', row, calls))"


section \<open>Workers of one lane, interleaved\<close>

text \<open>
  The workers are asyncio tasks of one event loop: a task runs without interruption
  between two \<^verbatim>\<open>await\<close>s. From the call of \<^verbatim>\<open>workers_and_delay\<close> to the start of the
  probe a worker awaits only the lane's lock inside \<^verbatim>\<open>next_rr\<close>, and from the return
  of the probe to the end of the update it awaits nothing; the probe itself awaits the
  network, and other workers run meanwhile. So a run is a sequence of two kinds of
  events: worker \<^verbatim>\<open>wid\<close> selects a stream and starts to probe it, and worker
  \<^verbatim>\<open>wid\<close>'s probe returns and the stream is updated. \<^verbatim>\<open>probing\<close> lists the workers
  whose probe is in flight with the name of the stream probed; the stream object is
  the one in the lane's list.
\<close>

record sys =
  sys_lane :: lane
  probing :: "(nat \<times> pystr) list"
  log :: "(pystr \<times> log_row) list"

datatype event = Select nat rat rat | Finish nat probe_env

datatype step_result = Next sys | Raised py_error | Disabled

definition eligible :: "rat \<Rightarrow> stream \<Rightarrow> bool" where
  "eligible now s = (now \<ge> backoff_until s)"

definition select :: "int \<Rightarrow> cfg \<Rightarrow> nat \<Rightarrow> rat \<Rightarrow> rat \<Rightarrow> sys \<Rightarrow> step_result" where
  "select MAX_WORKERS_PER_TYPE c wid now now2 st =
     (if wid \<in> fst ` set (probing st) then Disabled
      else (let (W, delay) = workers_and_delay MAX_WORKERS_PER_TYPE c (sys_lane st)
            in if int wid \<ge> W \<or> items (sys_lane st) = [] then Next st
               else (case next_rr now (sys_lane st) of
                       Inl e \<Rightarrow> Raised e
                     | Inr (None, l') \<Rightarrow> Next (st\<lparr>sys_lane := l'\<rparr>)
                     | Inr (Some s, l') \<Rightarrow>
                         if now2 < backoff_until s then Next (st\<lparr>sys_lane := l'\<rparr>)
                         else Next (st\<lparr>sys_lane := l', probing := (wid, name s) # probing st\<rparr>))))"

definition finish :: "rat \<Rightarrow> nat \<Rightarrow> probe_env \<Rightarrow> sys \<Rightarrow> step_result" where
  "finish BACKOFF_BASE wid env st =
     (case map_of (probing st) wid of
        None \<Rightarrow> Disabled
      | Some n \<Rightarrow>
         (case find (\<lambda>x. name x = n) (items (sys_lane st)) of
            None \<Rightarrow> Disabled
          | Some s \<Rightarrow>
             (case probe_cycle BACKOFF_BASE env s of
                (s', row, calls) \<Rightarrow>
                  Next (st\<lparr>sys_lane := (sys_lane st)
                                \<lparr>items := map (\<lambda>x. if name x = n then s' else x) (items (sys_lane st))\<rparr>,
                            probing := filter (\<lambda>(w, _). w \<noteq> wid) (probing st),
                            log := log st @ [(n, row)]\<rparr>))))"

fun run :: "int \<Rightarrow> rat \<Rightarrow> cfg \<Rightarrow> event list \<Rightarrow> sys \<Rightarrow> step_result" where
  "run M B c [] st = Next st"
| "run M B c (Select wid now now2 # es) st =
     (case select M c wid now now2 st of Next st' \<Rightarrow> run M B c es st' | r \<Rightarrow> r)"
| "run M B c (Finish wid env # es) st =
     (case finish B wid env st of Next st' \<Rightarrow> run M B c es st' | r \<Rightarrow> r)"

text \<open>At most one probe in flight per stream: no stream name occurs twice in \<^verbatim>\<open>probing\<close>.\<close>

definition one_probe_per_stream :: "sys \<Rightarrow> bool" where
  "one_probe_per_stream st = distinct (map snd (probing st))"

text \<open>The cursor of a lane is inside its list, as \<^verbatim>\<open>Lane.set\<close> and \<^verbatim>\<open>next_rr\<close> keep it.\<close>

definition lane_ok :: "lane \<Rightarrow> bool" where
  "lane_ok l = (items l = [] \<or> lane_i l < length (items l))"

text \<open>The state a run ends in, when no step raised or was disabled.\<close>

definition the_sys :: "step_result \<Rightarrow> sys option" where
  "the_sys r = (case r of Next st \<Rightarrow> Some st | _ \<Rightarrow> None)"

section \<open>Auxiliary notions and fixtures\<close>

text \<open>A configuration of \<^verbatim>\<open>n\<close> cameras and an RTSP lane holding them, for concrete runs.\<close>

definition demo_streams :: "nat \<Rightarrow> (pystr \<times> pystr) list" where
  "demo_streams n = map (\<lambda>k. (py ''cam'' @ str_nat k, py ''rtsp://10.0.0.1/'' @ str_nat k)) [0..<n]"

definition demo_cfg :: "int \<Rightarrow> nat \<Rightarrow> cfg" where
  "demo_cfg h n = \<lparr>heartbeat_seconds = Some h, timezone = py ''UTC'', streams = demo_streams n\<rparr>"


definition demo_env :: "rtsp_io \<Rightarrow> frame_io \<Rightarrow> rat \<Rightarrow> probe_env" where
  "demo_env rio fio t =
     \<lparr>rtsp_io = rio, http_io = \<lparr>head_io = HttpTimeout 3000, get_io = HttpTimeout 6000\<rparr>,
      frame_io = fio, t_update = t, ts_record = py ''2026-01-01T00:00:00+00:00''\<rparr>"

definition demo_cam :: stream where
  "demo_cam = Stream (py ''cam1'') (py ''rtsp://10.0.0.1/live'')"


text \<open>
  Named for the statements about the probes: the response opens with the status line of
  the given code; two concrete responses; whether a request block raised; the status
  of the request block that returned, if one did.
\<close>

definition status_line_is :: "string \<Rightarrow> pystr \<Rightarrow> bool" where
  "status_line_is code txt = prefix (py ''RTSP/1.0 '' @ py code) txt"

definition crlf :: pystr where
  "crlf = [13, 10]"

definition relay_500 :: pystr where
  "relay_500 = py ''RTSP/1.0 500 Internal Server Error'' @ crlf @ py ''CSeq: 1'' @ crlf
     @ py ''X-Upstream-Status: RTSP/1.0 200 OK'' @ crlf @ crlf"



definition unauthorized_401 :: pystr where
  "unauthorized_401 = py ''RTSP/1.0 401 Unauthorized'' @ crlf @ py ''CSeq: 1'' @ crlf @ crlf"

text \<open>
  A lane of six cameras for a heartbeat of 5 seconds, so two workers are active:
  five cameras are backed off until clock reading 190, one is eligible.
\<close>

definition five_down :: lane where
  "five_down =
     \<lparr>kind = ''rtsp'',
      items = map (\<lambda>k. (Stream (py ''cam'' @ str_nat k) (py ''rtsp://10.0.0.1/'' @ str_nat k))
                          \<lparr>fails := 5, backoff_until := 190\<rparr>) [0..<5]
              @ [Stream (py ''cam5'') (py ''rtsp://10.0.0.1/5'')],
      lane_i = 0\<rparr>"

text \<open>A lane of three cameras with the cursor on the second, which is backed off.\<close>

definition cam_a :: stream where
  "cam_a = Stream (py ''a'') (py ''rtsp://10.0.0.1/a'')"

definition cam_b :: stream where
  "cam_b = (Stream (py ''b'') (py ''rtsp://10.0.0.1/b''))\<lparr>fails := 2, backoff_until := 50\<rparr>"

definition cam_c :: stream where
  "cam_c = Stream (py ''c'') (py ''rtsp://10.0.0.1/c'')"

definition abc_lane :: lane where
  "abc_lane = \<lparr>kind = ''rtsp'', items = [cam_a, cam_b, cam_c], lane_i = 1\<rparr>"

text \<open>
  Configurations with one camera on an RTSP or an HTTP url and with two cameras, and a
  scheduler whose only camera has failed three times and is backed off.
\<close>

definition cam1_rtsp :: cfg where
  "cam1_rtsp = \<lparr>heartbeat_seconds = Some 10, timezone = py ''UTC'',
                 streams = [(py ''cam1'', py ''rtsp://10.0.0.1/live'')]\<rparr>"

definition cam1_http :: cfg where
  "cam1_http = \<lparr>heartbeat_seconds = Some 10, timezone = py ''UTC'',
                 streams = [(py ''cam1'', py ''http://10.0.0.1/mjpeg'')]\<rparr>"

definition cam1_failing :: scheduler where
  "cam1_failing =
     rebuild \<lparr>sched_cfg = cam1_rtsp,
              state = [(py ''cam1'', demo_cam\<lparr>fails := 3, backoff_until := 50\<rparr>)],
              rtsp = Lane ''rtsp'', http = Lane ''mjpeg''\<rparr>"

definition two_cams :: cfg where
  "two_cams = \<lparr>heartbeat_seconds = Some 10, timezone = py ''UTC'',
                streams = [(py ''cam1'', py ''rtsp://10.0.0.1/live''),
                           (py ''cam2'', py ''http://10.0.0.2/mjpeg'')]\<rparr>"

section \<open>Facts about the table identifier\<close>

lemma py_simps: "py [] = []" "py (c # cs) = of_char c # py cs"
  by (simp_all add: py_def)

lemma isalnum_log: "isalnum U 108" "isalnum U 111" "isalnum U 103" "isalnum U 116"
  by (simp_all add: isalnum_def)

lemma tname_shape:
  "\<exists>rest. tname U nm = py ''log_'' @ rest \<and> list_all (\<lambda>c. isalnum U c \<or> c = underscore) rest"
proof -
  define safe where
    "safe = map (\<lambda>ch. if isalnum U ch \<or> ch = underscore then ch else underscore) (strip U nm)"
  have s: "list_all (\<lambda>c. isalnum U c \<or> c = underscore) safe"
    by (auto simp: safe_def list_all_iff)
  have t: "list_all (\<lambda>c. isalnum U c \<or> c = underscore) (py ''t_'' @ safe)"
    using s by (simp add: py_simps isalnum_log underscore_def)
  show ?thesis
    using s t by (auto simp: tname_def Let_def safe_def [symmetric])
qed

text \<open>
  Claim C10. The table identifier is not injective: the two distinct endpoint names
  \<^verbatim>\<open>cam 1\<close> and \<^verbatim>\<open>cam_1\<close> get the same identifier \<^verbatim>\<open>log_cam_1\<close>, so a result recorded
  for the first is the newest row read for the second. For every name the identifier
  starts with \<^verbatim>\<open>log_\<close> and holds only alphanumeric code points and underscores.
\<close>

theorem tname_not_injective_but_well_formed:
  "tname ascii_only (py ''cam 1'') = tname ascii_only (py ''cam_1'')
   \<and> py ''cam 1'' \<noteq> py ''cam_1''
   \<and> tname ascii_only (py ''cam 1'') = py ''log_cam_1''
   \<and> (d (py ''log_cam_1'') = Some rows \<longrightarrow>
        (\<exists>d'. record_row ascii_only (py ''cam 1'') r d = Inr d'
              \<and> latest_row ascii_only (py ''cam_1'') d' = Inr (Some r)))
   \<and> prefix (py ''log_'') (tname U nm)
   \<and> list_all (\<lambda>c. isalnum U c \<or> c = underscore) (tname U nm)"
proof -
  have a: "tname ascii_only (py ''cam 1'') = py ''log_cam_1''"
    by (simp add: tname_def strip_def isspace_def isalnum_def isalpha_def underscore_def py_simps)
  have b: "tname ascii_only (py ''cam_1'') = py ''log_cam_1''"
    by (simp add: tname_def strip_def isspace_def isalnum_def isalpha_def underscore_def py_simps)
  have c: "py ''cam 1'' \<noteq> py ''cam_1''"
    by (simp add: py_simps)
  obtain rest where r: "tname U nm = py ''log_'' @ rest"
    "list_all (\<lambda>c. isalnum U c \<or> c = underscore) rest"
    using tname_shape by blast
  have p: "prefix (py ''log_'') (tname U nm)"
    using r by simp
  have w: "list_all (\<lambda>c. isalnum U c \<or> c = underscore) (tname U nm)"
    using r by (simp add: py_simps isalnum_log underscore_def)
  have s: "d (py ''log_cam_1'') = Some rows \<longrightarrow>
        (\<exists>d'. record_row ascii_only (py ''cam 1'') r d = Inr d'
              \<and> latest_row ascii_only (py ''cam_1'') d' = Inr (Some r))"
    by (simp add: record_row_def latest_row_def a b)
  show ?thesis
    using a b c p w s by simp
qed

theorem tname_not_injective_but_well_formed_witness:
  "(let d = [py ''log_cam_1'' \<mapsto> []];
        r = \<lparr>row_ts = py ''t'', row_status = py ''ok'', row_latency = Some 12, row_message = py ''RTSP 200''\<rparr>
    in d (py ''log_cam_1'') = Some []
       \<and> (\<exists>d'. record_row ascii_only (py ''cam 1'') r d = Inr d'
              \<and> latest_row ascii_only (py ''cam_1'') d' = Inr (Some r)))
   \<and> prefix (py ''log_'') (tname ascii_only (py '' 9 lives ''))
   \<and> tname ascii_only (py '' 9 lives '') = py ''log_t_9_lives''"
proof -
  have t: "tname ascii_only (py '' 9 lives '') = py ''log_t_9_lives''"
    by (simp add: tname_def strip_def isspace_def isalnum_def isalpha_def underscore_def py_simps)
  show ?thesis
    using tname_not_injective_but_well_formed
      [of "[py ''log_cam_1'' \<mapsto> []]" "[]"
          "\<lparr>row_ts = py ''t'', row_status = py ''ok'', row_latency = Some 12, row_message = py ''RTSP 200''\<rparr>"
          ascii_only "py '' 9 lives ''"] t
    by (simp add: Let_def)
qed

section \<open>Scheduler sizing\<close>








section \<open>Worker loop: backoff and fallback\<close>

lemma demo_cam_rtsp: "is_rtsp demo_cam"
  by (simp add: demo_cam_def Stream_def url_is_rtsp_def lower_def py_simps)


lemma contains_200: "str_contains (py ''RTSP/1.0 200'') (py ''RTSP/1.0 200 OK'')"
  by (simp add: py_simps)

text \<open>
  Claim C4, as stated, fails on the code in the success branch: a stream whose probe
  succeeds at clock reading 100 gets \<^verbatim>\<open>backoff_until = 0\<close>, not the reading of the clock.
\<close>

theorem apply_outcome_counterexample:
  "t_update (demo_env (Replied (py ''RTSP/1.0 200 OK'') 12) (FrameRead False 0) 100) = 100
   \<and> row_status (fst (snd (probe_cycle 5 (demo_env (Replied (py ''RTSP/1.0 200 OK'') 12) (FrameRead False 0) 100)
          (demo_cam\<lparr>fails := 2, backoff_until := 40\<rparr>)))) = py ''ok''
   \<and> backoff_until (fst (probe_cycle 5 (demo_env (Replied (py ''RTSP/1.0 200 OK'') 12) (FrameRead False 0) 100)
          (demo_cam\<lparr>fails := 2, backoff_until := 40\<rparr>))) = 0
   \<and> backoff_until (fst (probe_cycle 5 (demo_env (Replied (py ''RTSP/1.0 200 OK'') 12) (FrameRead False 0) 100)
          (demo_cam\<lparr>fails := 2, backoff_until := 40\<rparr>))) \<noteq> 100"
  by (simp add: probe_cycle_def run_probe_def apply_outcome_def demo_env_def demo_cam_rtsp
      probe_rtsp_def contains_200 Let_def)

lemma apply_outcome_ok:
  "apply_outcome B env (True, msg, lat) s =
     (s\<lparr>fails := 0, backoff_until := 0\<rparr>,
      \<lparr>row_ts = ts_record env, row_status = py ''ok'', row_latency = Some lat, row_message = msg\<rparr>)"
  by (simp add: apply_outcome_def)

lemma apply_outcome_fail:
  "apply_outcome B env (False, msg, lat) s =
     (s\<lparr>fails := fails s + 1, backoff_until := t_update env + min 90 (B * 2 ^ min 5 (fails s + 1))\<rparr>,
      \<lparr>row_ts = ts_record env, row_status = py ''fail'', row_latency = Some lat, row_message = msg\<rparr>)"
  by (simp add: apply_outcome_def Let_def)

lemma next_rr_single:
  "now \<ge> backoff_until s \<Longrightarrow>
   next_rr now \<lparr>kind = k, items = [s], lane_i = 0\<rparr> = Inr (Some s, \<lparr>kind = k, items = [s], lane_i = 0\<rparr>)"
  by (simp add: next_rr_def)

text \<open>
  Claim C4, amended. On outcome OK the worker sets \<^verbatim>\<open>fails\<close> to 0 and
  \<^verbatim>\<open>backoff_until\<close> to 0, a time no later than any reading of the monotonic clock, so
  the stream is eligible at once: \<^verbatim>\<open>next_rr\<close> returns it at every \<^verbatim>\<open>now \<ge> 0\<close>.
  On outcome FAIL it increments \<^verbatim>\<open>fails\<close> by 1 and sets \<^verbatim>\<open>backoff_until\<close> to
  \<^verbatim>\<open>now + min(90, BACKOFF_BASE * 2 ^ min(5, fails))\<close> with the incremented count, which
  is at most 90 seconds ahead. Name, url and family of the stream are not touched, and
  the row recorded carries the outcome, the latency and the classification.
\<close>

theorem apply_outcome_backoff:
  assumes "apply_outcome B env (ok, msg, lat) s = (s', row)"
  shows "(ok \<longrightarrow> fails s' = 0 \<and> backoff_until s' = 0 \<and> row_status row = py ''ok''
              \<and> (0 \<le> now \<longrightarrow> next_rr now \<lparr>kind = k, items = [s'], lane_i = 0\<rparr>
                                = Inr (Some s', \<lparr>kind = k, items = [s'], lane_i = 0\<rparr>)))
       \<and> (\<not> ok \<longrightarrow> fails s' = fails s + 1
              \<and> backoff_until s' = t_update env + min 90 (B * 2 ^ min 5 (fails s'))
              \<and> backoff_until s' \<le> t_update env + 90
              \<and> row_status row = py ''fail'')
       \<and> name s' = name s \<and> url s' = url s \<and> is_rtsp s' = is_rtsp s
       \<and> row_latency row = Some lat \<and> row_message row = msg"
proof (cases ok)
  case True
  then have s': "s' = s\<lparr>fails := 0, backoff_until := 0\<rparr>"
    and row: "row = \<lparr>row_ts = ts_record env, row_status = py ''ok'', row_latency = Some lat, row_message = msg\<rparr>"
    using assms by (simp_all add: apply_outcome_ok)
  have "0 \<le> now \<longrightarrow> next_rr now \<lparr>kind = k, items = [s'], lane_i = 0\<rparr>
                                = Inr (Some s', \<lparr>kind = k, items = [s'], lane_i = 0\<rparr>)"
    using next_rr_single [of s' now k] s' by simp
  then show ?thesis using True s' row by simp
next
  case False
  then have s': "s' = s\<lparr>fails := fails s + 1, backoff_until := t_update env + min 90 (B * 2 ^ min 5 (fails s + 1))\<rparr>"
    and row: "row = \<lparr>row_ts = ts_record env, row_status = py ''fail'', row_latency = Some lat, row_message = msg\<rparr>"
    using assms by (simp_all add: apply_outcome_fail)
  show ?thesis using False s' row by simp
qed

theorem apply_outcome_backoff_witness:
  "(let env = demo_env (RtspTimeout 3500) (FrameRead False 0) 100
    in apply_outcome 5 env (False, py ''timeout'', 3500) (demo_cam\<lparr>fails := 2, backoff_until := 40\<rparr>)
         = (demo_cam\<lparr>fails := 3, backoff_until := 140\<rparr>,
            \<lparr>row_ts = ts_record env, row_status = py ''fail'', row_latency = Some 3500,
             row_message = py ''timeout''\<rparr>)
       \<and> apply_outcome 5 env (False, py ''timeout'', 3500) (demo_cam\<lparr>fails := 7, backoff_until := 40\<rparr>)
         = (demo_cam\<lparr>fails := 8, backoff_until := 190\<rparr>,
            \<lparr>row_ts = ts_record env, row_status = py ''fail'', row_latency = Some 3500,
             row_message = py ''timeout''\<rparr>)
       \<and> apply_outcome 5 env (True, py ''RTSP 200'', 12) (demo_cam\<lparr>fails := 7, backoff_until := 40\<rparr>)
         = (demo_cam\<lparr>fails := 0, backoff_until := 0\<rparr>,
            \<lparr>row_ts = ts_record env, row_status = py ''ok'', row_latency = Some 12,
             row_message = py ''RTSP 200''\<rparr>))"
proof -
  define env where "env = demo_env (RtspTimeout 3500) (FrameRead False 0) 100"
  obtain s1 r1 where a1: "apply_outcome 5 env (False, py ''timeout'', 3500) (demo_cam\<lparr>fails := 2, backoff_until := 40\<rparr>) = (s1, r1)"
    by fastforce
  have t: "t_update env = 100" by (simp add: env_def demo_env_def)
  obtain s2 r2 where a2: "apply_outcome 5 env (True, py ''RTSP 200'', 12) (demo_cam\<lparr>fails := 7, backoff_until := 40\<rparr>) = (s2, r2)"
    by fastforce
  have "fails s1 = 3 \<and> backoff_until s1 = 140"
    using apply_outcome_backoff [OF a1, of 0 "''rtsp''"] t by simp
  moreover have "fails s2 = 0 \<and> backoff_until s2 = 0"
    using apply_outcome_backoff [OF a2, of 0 "''rtsp''"] by simp
  ultimately show ?thesis
    using a1 a2 unfolding env_def [symmetric] Let_def
    by (simp add: apply_outcome_ok apply_outcome_fail t)
qed





section \<open>Probe classification\<close>

lemma str_contains_sublist: "str_contains sub t = sublist sub t"
  by (induction t) (auto simp: sublist_Cons_right)

lemma prefix_str_contains: "prefix sub t \<Longrightarrow> str_contains sub t"
  by (cases t) auto

lemma str_contains_append: "str_contains sub (pre @ sub @ post)"
  by (simp add: str_contains_sublist)

text \<open>
  Claim C2, as stated, fails on the code: a response whose status line says 500, and
  which quotes \<^verbatim>\<open>RTSP/1.0 200\<close> in a later header, is classified OK with
  \<^verbatim>\<open>RTSP 200\<close>, because the code searches the whole text and not the status line.
\<close>

theorem probe_rtsp_counterexample:
  "status_line_is ''500'' relay_500 \<and> probe_rtsp (Replied relay_500 40) = (True, py ''RTSP 200'', 40)"
proof -
  have e: "relay_500 = (py ''RTSP/1.0 500 Internal Server Error'' @ crlf @ py ''CSeq: 1'' @ crlf
     @ py ''X-Upstream-Status: '') @ py ''RTSP/1.0 200'' @ (py '' OK'' @ crlf @ crlf)"
    by (simp add: relay_500_def py_simps)
  have "str_contains (py ''RTSP/1.0 200'') relay_500"
    by (subst e) (rule str_contains_append)
  moreover have "status_line_is ''500'' relay_500"
    by (simp add: status_line_is_def relay_500_def py_simps)
  ultimately show ?thesis by (simp add: probe_rtsp_def)
qed

text \<open>
  Claim C2, amended. The classification is a substring search over the decoded response
  in the order 200, 401, 403, 404, 454: a text containing \<^verbatim>\<open>RTSP/1.0 200\<close> is OK
  with \<^verbatim>\<open>RTSP 200\<close>; otherwise the first of the other four markers found makes it OK
  with the classification naming that status; a text with none of the five markers is
  FAIL with \<^verbatim>\<open>RTSP not 200\<close>. So a response whose status line is 200 is OK with
  \<^verbatim>\<open>RTSP 200\<close>, and one whose status line is 401, 403, 404 or 454 is OK. A timeout is
  FAIL with \<^verbatim>\<open>timeout\<close>, any other exception FAIL with \<^verbatim>\<open>error:\<close> and its text.
\<close>

theorem probe_rtsp_classification:
  "(str_contains (py ''RTSP/1.0 200'') resp \<longrightarrow>
      probe_rtsp (Replied resp lat) = (True, py ''RTSP 200'', lat))
   \<and> (\<not> str_contains (py ''RTSP/1.0 200'') resp \<and> str_contains (py ''RTSP/1.0 401'') resp \<longrightarrow>
      probe_rtsp (Replied resp lat) = (True, py ''RTSP 401 Unauthorized'', lat))
   \<and> (\<not> str_contains (py ''RTSP/1.0 200'') resp \<and> \<not> str_contains (py ''RTSP/1.0 401'') resp
      \<and> str_contains (py ''RTSP/1.0 403'') resp \<longrightarrow>
      probe_rtsp (Replied resp lat) = (True, py ''RTSP 403 Forbidden'', lat))
   \<and> (\<not> str_contains (py ''RTSP/1.0 200'') resp \<and> \<not> str_contains (py ''RTSP/1.0 401'') resp
      \<and> \<not> str_contains (py ''RTSP/1.0 403'') resp \<and> str_contains (py ''RTSP/1.0 404'') resp \<longrightarrow>
      probe_rtsp (Replied resp lat) = (True, py ''RTSP 404 Not Found'', lat))
   \<and> (\<not> str_contains (py ''RTSP/1.0 200'') resp \<and> \<not> str_contains (py ''RTSP/1.0 401'') resp
      \<and> \<not> str_contains (py ''RTSP/1.0 403'') resp \<and> \<not> str_contains (py ''RTSP/1.0 404'') resp
      \<and> str_contains (py ''RTSP/1.0 454'') resp \<longrightarrow>
      probe_rtsp (Replied resp lat) = (True, py ''RTSP 454 Session Not Found'', lat))
   \<and> (\<not> str_contains (py ''RTSP/1.0 200'') resp \<and> \<not> str_contains (py ''RTSP/1.0 401'') resp
      \<and> \<not> str_contains (py ''RTSP/1.0 403'') resp \<and> \<not> str_contains (py ''RTSP/1.0 404'') resp
      \<and> \<not> str_contains (py ''RTSP/1.0 454'') resp \<longrightarrow>
      probe_rtsp (Replied resp lat) = (False, py ''RTSP not 200'', lat))
   \<and> (status_line_is ''200'' resp \<longrightarrow> probe_rtsp (Replied resp lat) = (True, py ''RTSP 200'', lat))
   \<and> (status_line_is ''401'' resp \<or> status_line_is ''403'' resp \<or> status_line_is ''404'' resp
      \<or> status_line_is ''454'' resp \<longrightarrow> fst (probe_rtsp (Replied resp lat)))
   \<and> (str_contains sub resp \<longleftrightarrow> sublist sub resp)
   \<and> probe_rtsp (RtspTimeout lat) = (False, py ''timeout'', lat)
   \<and> probe_rtsp (RtspRaised e lat) = (False, py ''error:'' @ e, lat)"
proof -
  have p200: "status_line_is ''200'' resp \<longrightarrow> str_contains (py ''RTSP/1.0 200'') resp"
    using prefix_str_contains [of "py ''RTSP/1.0 200''" resp]
    by (simp add: status_line_is_def py_simps)
  have p401: "status_line_is ''401'' resp \<longrightarrow> str_contains (py ''RTSP/1.0 401'') resp"
    using prefix_str_contains [of "py ''RTSP/1.0 401''" resp]
    by (simp add: status_line_is_def py_simps)
  have p403: "status_line_is ''403'' resp \<longrightarrow> str_contains (py ''RTSP/1.0 403'') resp"
    using prefix_str_contains [of "py ''RTSP/1.0 403''" resp]
    by (simp add: status_line_is_def py_simps)
  have p404: "status_line_is ''404'' resp \<longrightarrow> str_contains (py ''RTSP/1.0 404'') resp"
    using prefix_str_contains [of "py ''RTSP/1.0 404''" resp]
    by (simp add: status_line_is_def py_simps)
  have p454: "status_line_is ''454'' resp \<longrightarrow> str_contains (py ''RTSP/1.0 454'') resp"
    using prefix_str_contains [of "py ''RTSP/1.0 454''" resp]
    by (simp add: status_line_is_def py_simps)
  have ok: "status_line_is ''401'' resp \<or> status_line_is ''403'' resp \<or> status_line_is ''404'' resp
      \<or> status_line_is ''454'' resp \<longrightarrow> fst (probe_rtsp (Replied resp lat))"
    using p401 p403 p404 p454 by (auto simp: probe_rtsp_def)
  show ?thesis
    using p200 ok by (simp add: probe_rtsp_def str_contains_sublist)
qed

theorem probe_rtsp_classification_witness:
  "status_line_is ''401'' unauthorized_401
   \<and> \<not> str_contains (py ''RTSP/1.0 200'') unauthorized_401
   \<and> str_contains (py ''RTSP/1.0 401'') unauthorized_401
   \<and> probe_rtsp (Replied unauthorized_401 35) = (True, py ''RTSP 401 Unauthorized'', 35)
   \<and> probe_rtsp (Replied (py ''garbage'') 35) = (False, py ''RTSP not 200'', 35)
   \<and> probe_rtsp (Replied (py ''RTSP/1.0 200 OK'') 35) = (True, py ''RTSP 200'', 35)"
proof -
  have n: "\<not> str_contains (py ''RTSP/1.0 200'') unauthorized_401"
    by (simp add: unauthorized_401_def crlf_def py_simps)
  have c: "str_contains (py ''RTSP/1.0 401'') unauthorized_401"
    by (simp add: unauthorized_401_def crlf_def py_simps)
  have s: "status_line_is ''401'' unauthorized_401"
    by (simp add: status_line_is_def unauthorized_401_def crlf_def py_simps)
  have g: "\<not> str_contains (py ''RTSP/1.0 200'') (py ''garbage'')"
    "\<not> str_contains (py ''RTSP/1.0 401'') (py ''garbage'')"
    "\<not> str_contains (py ''RTSP/1.0 403'') (py ''garbage'')"
    "\<not> str_contains (py ''RTSP/1.0 404'') (py ''garbage'')"
    "\<not> str_contains (py ''RTSP/1.0 454'') (py ''garbage'')"
    by (simp_all add: py_simps)
  have o: "status_line_is ''200'' (py ''RTSP/1.0 200 OK'')"
    by (simp add: status_line_is_def py_simps)
  show ?thesis
    using probe_rtsp_classification [of unauthorized_401 35] n c s
      probe_rtsp_classification [of "py ''garbage''" 35] g
      probe_rtsp_classification [of "py ''RTSP/1.0 200 OK''" 35] o
    by simp
qed



section \<open>Round robin\<close>

lemma rotate_Suc_mod:
  assumes "xs \<noteq> []"
  shows "rotate ((j + 1) mod length xs) xs = rotate1 (rotate j xs)"
proof -
  have "rotate ((j + 1) mod length xs) xs = rotate (j + 1) xs"
    by (metis rotate_conv_mod)
  then show ?thesis by simp
qed

lemma rotate_hd_nth:
  assumes "j < length xs"
  shows "rotate j xs = xs ! j # tl (rotate j xs)"
proof -
  have ne: "rotate j xs \<noteq> []" using assms by auto
  have "xs \<noteq> []" using assms by auto
  then have "hd (rotate j xs) = xs ! j"
    using assms by (simp add: hd_rotate_conv_nth)
  then show ?thesis using ne by (metis list.collapse)
qed

lemma next_rr_loop_rotate:
  assumes "j < length xs" "k \<le> length xs"
  shows "next_rr_loop k now xs j =
     Inr (case find (eligible now) (take k (rotate j xs)) of
            None \<Rightarrow> (None, (j + k) mod length xs)
          | Some s \<Rightarrow> (Some s,
              (j + length (takeWhile (Not \<circ> eligible now) (take k (rotate j xs))) + 1) mod length xs))"
  using assms
proof (induction k arbitrary: j)
  case 0
  then show ?case by simp
next
  case (Suc k)
  have ne: "xs \<noteq> []" using Suc.prems by auto
  let ?j' = "(j + 1) mod length xs"
  have j': "?j' < length xs" using ne by simp
  obtain rest where r: "rotate j xs = xs ! j # rest"
    using rotate_hd_nth [OF Suc.prems(1)] by blast
  have lr: "length rest = length xs - 1"
    using r by (metis length_rotate length_tl list.sel(3))
  have r': "rotate ?j' xs = rest @ [xs ! j]"
    using rotate_Suc_mod [OF ne, of j] r by simp
  have tk: "take k (rotate ?j' xs) = take k rest"
    using r' lr Suc.prems(2) by simp
  show ?case
  proof (cases "eligible now (xs ! j)")
    case True
    then have "now \<ge> backoff_until (xs ! j)" by (simp add: eligible_def)
    then show ?thesis
      using True Suc.prems r by (simp add: Let_def)
  next
    case False
    have ih: "next_rr_loop k now xs ?j' =
       Inr (case find (eligible now) (take k rest) of
            None \<Rightarrow> (None, (?j' + k) mod length xs)
          | Some s \<Rightarrow> (Some s,
              (?j' + length (takeWhile (Not \<circ> eligible now) (take k rest)) + 1) mod length xs))"
    proof -
      have "k \<le> length xs" using Suc.prems(2) by simp
      from Suc.IH [OF j' this] show ?thesis by (simp only: tk)
    qed
    have m1: "(?j' + k) mod length xs = (j + Suc k) mod length xs"
      by (metis add.assoc mod_add_left_eq plus_1_eq_Suc)
    have m2: "\<And>d. (?j' + d + 1) mod length xs = (j + Suc d + 1) mod length xs"
      by (metis (no_types, opaque_lifting) add.assoc add.commute mod_add_left_eq plus_1_eq_Suc)
    have nb: "\<not> now \<ge> backoff_until (xs ! j)"
      using False by (simp add: eligible_def)
    show ?thesis
      using False nb Suc.prems(1) r ih m1 m2
      by (simp add: Let_def split: option.splits)
  qed
qed

lemma find_split:
  assumes "find P xs = Some s"
  shows "\<exists>pre post. xs = pre @ s # post \<and> (\<forall>x\<in>set pre. \<not> P x) \<and> P s
           \<and> pre = takeWhile (Not \<circ> P) xs"
proof -
  from assms obtain post where d: "dropWhile (Not \<circ> P) xs = s # post"
    by (auto simp: find_dropWhile split: list.splits)
  have "xs = takeWhile (Not \<circ> P) xs @ s # post"
    using d by (metis takeWhile_dropWhile_id)
  moreover have "\<forall>x\<in>set (takeWhile (Not \<circ> P) xs). \<not> P x"
    by (auto dest: set_takeWhileD)
  moreover have "P s"
    using d hd_dropWhile [of "Not \<circ> P" xs] by auto
  ultimately show ?thesis by blast
qed

lemma rotate_past:
  assumes "rotate j xs = pre @ s # post"
  shows "rotate ((j + length pre + 1) mod length xs) xs = post @ pre @ [s]"
proof -
  have "rotate ((j + length pre + 1) mod length xs) xs = rotate (j + length pre + 1) xs"
    by (metis rotate_conv_mod)
  also have "\<dots> = rotate (length (pre @ [s])) (rotate j xs)"
    by (simp add: rotate_rotate add.commute)
  also have "\<dots> = rotate (length (pre @ [s])) ((pre @ [s]) @ post)"
    using assms by simp
  also have "\<dots> = post @ pre @ [s]"
    using rotate_append [of "pre @ [s]" post] by simp
  finally show ?thesis .
qed

lemma next_rr_none:
  assumes "items l \<noteq> []" "lane_i l < length (items l)"
    and "find (eligible now) (rotate (lane_i l) (items l)) = None"
  shows "next_rr now l = Inr (None, l)"
  using assms next_rr_loop_rotate [of "lane_i l" "items l" "length (items l)" now]
  by (simp add: next_rr_def)

lemma next_rr_some:
  assumes "items l \<noteq> []" "lane_i l < length (items l)"
    and "find (eligible now) (rotate (lane_i l) (items l)) = Some s"
  shows "\<exists>pre post. rotate (lane_i l) (items l) = pre @ s # post
           \<and> (\<forall>x\<in>set pre. \<not> eligible now x) \<and> eligible now s
           \<and> next_rr now l = Inr (Some s, l\<lparr>lane_i := (lane_i l + length pre + 1) mod length (items l)\<rparr>)
           \<and> rotate ((lane_i l + length pre + 1) mod length (items l)) (items l) = post @ pre @ [s]"
proof -
  obtain pre post where sp: "rotate (lane_i l) (items l) = pre @ s # post"
      "\<forall>x\<in>set pre. \<not> eligible now x" "eligible now s"
      "pre = takeWhile (Not \<circ> eligible now) (rotate (lane_i l) (items l))"
    using find_split [OF assms(3)] by blast
  have "next_rr now l = Inr (Some s, l\<lparr>lane_i := (lane_i l + length pre + 1) mod length (items l)\<rparr>)"
    using assms sp(4) next_rr_loop_rotate [of "lane_i l" "items l" "length (items l)" now]
    by (simp add: next_rr_def)
  then show ?thesis
    using sp rotate_past [OF sp(1)] by blast
qed

lemma next_rr_step:
  assumes "items l \<noteq> []" "lane_i l < length (items l)"
  shows "\<exists>l'. next_rr now l = Inr (find (eligible now) (rotate (lane_i l) (items l)), l')
           \<and> find (eligible now) (rotate (lane_i l) (items l))
               = (case filter (eligible now) (rotate (lane_i l) (items l)) of [] \<Rightarrow> None | s # _ \<Rightarrow> Some s)
           \<and> items l' = items l \<and> kind l' = kind l \<and> lane_i l' < length (items l')
           \<and> filter (eligible now) (rotate (lane_i l') (items l'))
               = rotate1 (filter (eligible now) (rotate (lane_i l) (items l)))"
proof (cases "find (eligible now) (rotate (lane_i l) (items l))")
  case None
  then have "filter (eligible now) (rotate (lane_i l) (items l)) = []"
    by (simp add: find_None_iff filter_empty_conv)
  then show ?thesis
    using None next_rr_none [OF assms None] assms by simp
next
  case (Some s)
  obtain pre post where sp: "rotate (lane_i l) (items l) = pre @ s # post"
      "\<forall>x\<in>set pre. \<not> eligible now x" "eligible now s"
      "next_rr now l = Inr (Some s, l\<lparr>lane_i := (lane_i l + length pre + 1) mod length (items l)\<rparr>)"
      "rotate ((lane_i l + length pre + 1) mod length (items l)) (items l) = post @ pre @ [s]"
    using next_rr_some [OF assms Some] by blast
  have fp: "filter (eligible now) pre = []"
    using sp(2) by (simp add: filter_empty_conv)
  have f: "filter (eligible now) (rotate (lane_i l) (items l)) = s # filter (eligible now) post"
    using sp(1,3) fp by simp
  have f': "filter (eligible now) (post @ pre @ [s]) = filter (eligible now) post @ [s]"
    using sp(3) fp by simp
  let ?l' = "l\<lparr>lane_i := (lane_i l + length pre + 1) mod length (items l)\<rparr>"
  have "lane_i ?l' < length (items ?l')" using assms(1) by simp
  then show ?thesis
    using Some sp(4,5) f f' by (intro exI [of _ ?l']) simp
qed

lemma take_rotate1:
  assumes "m < length xs"
  shows "take m (rotate1 xs) = take m (tl xs)"
  using assms by (cases xs) auto

lemma next_rr_calls_round:
  assumes "items l \<noteq> []" "lane_i l < length (items l)"
    and "m \<le> length (filter (eligible now) (rotate (lane_i l) (items l)))"
  shows "\<exists>l'. next_rr_calls (replicate m now) l
             = Inr (map Some (take m (filter (eligible now) (rotate (lane_i l) (items l)))), l')
           \<and> items l' = items l \<and> kind l' = kind l \<and> lane_i l' < length (items l')
           \<and> filter (eligible now) (rotate (lane_i l') (items l'))
               = rotate m (filter (eligible now) (rotate (lane_i l) (items l)))"
  using assms
proof (induction m arbitrary: l)
  case 0
  then show ?case by simp
next
  case (Suc m)
  let ?F = "filter (eligible now) (rotate (lane_i l) (items l))"
  obtain s F' where F: "?F = s # F'"
    using Suc.prems(3) by (cases ?F) auto
  obtain l1 where l1: "next_rr now l = Inr (Some s, l1)" "items l1 = items l" "kind l1 = kind l"
      "lane_i l1 < length (items l1)"
      "filter (eligible now) (rotate (lane_i l1) (items l1)) = rotate1 ?F"
    using next_rr_step [OF Suc.prems(1,2), of now] F by auto
  have m: "m \<le> length (filter (eligible now) (rotate (lane_i l1) (items l1)))"
    using Suc.prems(3) l1(5) by simp
  have ne1: "items l1 \<noteq> []" using l1(2) Suc.prems(1) by simp
  obtain l2 where l2: "next_rr_calls (replicate m now) l1
             = Inr (map Some (take m (rotate1 ?F)), l2)"
      "items l2 = items l1" "kind l2 = kind l1" "lane_i l2 < length (items l2)"
      "filter (eligible now) (rotate (lane_i l2) (items l2)) = rotate m (rotate1 ?F)"
    using Suc.IH [OF ne1 l1(4) m] l1(5) by auto
  have tk: "take m (rotate1 ?F) = take m F'"
    using take_rotate1 [of m ?F] Suc.prems(3) F by simp
  have rt: "rotate m (rotate1 ?F) = rotate (Suc m) ?F"
    by (simp add: rotate1_rotate_swap)
  show ?case
    using l1 l2 tk rt F by (intro exI [of _ l2]) simp
qed

lemma mset_rotate_eq: "mset (rotate j xs) = mset xs"
proof -
  have "mset (rotate j xs) = mset (drop (j mod length xs) xs @ take (j mod length xs) xs)"
    by (simp only: rotate_drop_take)
  also have "\<dots> = mset (take (j mod length xs) xs @ drop (j mod length xs) xs)"
    by (simp only: mset_append add.commute)
  also have "\<dots> = mset xs"
    by (simp only: append_take_drop_id)
  finally show ?thesis .
qed

lemma mset_eligible_rotate:
  "mset (filter P (rotate j xs)) = mset (filter P xs)"
  by (simp add: mset_rotate_eq)

text \<open>
  Claim C6. On a lane whose cursor is inside its list, a call of \<^verbatim>\<open>next_rr\<close> never
  raises; its loop runs once per element of the lane, so it scans at most one lap. It
  returns the first stream, in cyclic order from the cursor, with
  \<^verbatim>\<open>backoff_until \<le> now\<close>, and none exactly when the lane is empty or every stream is
  backed off; the cursor is then back where it was. With \<^verbatim>\<open>F\<close> the streams that are not backed off, in cyclic order from the
  cursor, the next \<^verbatim>\<open>length F\<close> calls return exactly \<^verbatim>\<open>F\<close>: each stream that is not
  backed off once (as a multiset \<^verbatim>\<open>F\<close> is the eligible streams of the lane, and no name
  repeats when the lane's names are distinct). Only the call after these returns a
  stream for the second time, the first one again.
\<close>

theorem next_rr_round_robin:
  assumes "lane_ok l"
    and "F = filter (eligible now) (rotate (lane_i l) (items l))"
  shows "\<exists>l1 lk.
      next_rr now l = Inr (find (eligible now) (rotate (lane_i l) (items l)), l1)
    \<and> lane_ok l1 \<and> items l1 = items l
    \<and> (find (eligible now) (rotate (lane_i l) (items l)) = None \<longrightarrow> l1 = l)
    \<and> (find (eligible now) (rotate (lane_i l) (items l)) = None
         \<longleftrightarrow> items l = [] \<or> (\<forall>s\<in>set (items l). \<not> eligible now s))
    \<and> next_rr_calls (replicate (length F) now) l = Inr (map Some F, lk)
    \<and> mset F = mset (filter (eligible now) (items l))
    \<and> (distinct (map name (items l)) \<longrightarrow> distinct (map name F))
    \<and> (F \<noteq> [] \<longrightarrow> (\<exists>l'. next_rr now lk = Inr (Some (hd F), l')))"
proof (cases "items l = []")
  case True
  then have "F = []" using assms(2) by simp
  then show ?thesis
    using True assms(1) by (simp add: next_rr_def)
next
  case False
  then have i: "lane_i l < length (items l)"
    using assms(1) by (simp add: lane_ok_def)
  obtain l1 where l1: "next_rr now l = Inr (find (eligible now) (rotate (lane_i l) (items l)), l1)"
      "items l1 = items l" "lane_i l1 < length (items l1)"
    using next_rr_step [OF False i, of now] by blast
  have ok1: "lane_ok l1" using l1(3) by (simp add: lane_ok_def)
  have wrap: "find (eligible now) (rotate (lane_i l) (items l)) = None \<longrightarrow> l1 = l"
    using l1(1) next_rr_none [OF False i, of now] by auto
  have none: "find (eligible now) (rotate (lane_i l) (items l)) = None
         \<longleftrightarrow> items l = [] \<or> (\<forall>s\<in>set (items l). \<not> eligible now s)"
    using False by (auto simp: find_None_iff)
  have "length F \<le> length (filter (eligible now) (rotate (lane_i l) (items l)))"
    using assms(2) by simp
  from next_rr_calls_round [OF False i this]
  obtain lk where lk: "next_rr_calls (replicate (length F) now) l = Inr (map Some F, lk)"
      "items lk = items l" "lane_i lk < length (items lk)"
      "filter (eligible now) (rotate (lane_i lk) (items lk)) = F"
    using assms(2) by auto
  have ms: "mset F = mset (filter (eligible now) (items l))"
    using assms(2) by (simp only: mset_eligible_rotate)
  have dn: "distinct (map name (items l)) \<longrightarrow> distinct (map name F)"
  proof
    assume "distinct (map name (items l))"
    then have "distinct (map name (rotate (lane_i l) (items l)))"
      by (simp add: rotate_map [symmetric])
    then show "distinct (map name F)"
      unfolding assms(2) by (rule distinct_map_filter)
  qed
  have again: "F \<noteq> [] \<longrightarrow> (\<exists>l'. next_rr now lk = Inr (Some (hd F), l'))"
  proof
    assume ne: "F \<noteq> []"
    have nek: "items lk \<noteq> []" using lk(2) False by simp
    obtain l' where "next_rr now lk = Inr (find (eligible now) (rotate (lane_i lk) (items lk)), l')"
        "find (eligible now) (rotate (lane_i lk) (items lk))
               = (case filter (eligible now) (rotate (lane_i lk) (items lk)) of [] \<Rightarrow> None | s # _ \<Rightarrow> Some s)"
      using next_rr_step [OF nek lk(3), of now] by blast
    then show "\<exists>l'. next_rr now lk = Inr (Some (hd F), l')"
      using lk(4) ne by (cases F) auto
  qed
  show ?thesis
    by (rule exI [of _ l1], rule exI [of _ lk]) (use l1(1,2) ok1 wrap none lk(1) ms dn again in simp)
qed

theorem next_rr_round_robin_witness:
  "lane_ok abc_lane
   \<and> filter (eligible 10) (rotate (lane_i abc_lane) (items abc_lane)) = [cam_c, cam_a]
   \<and> (\<exists>lk. next_rr_calls [10, 10] abc_lane = Inr ([Some cam_c, Some cam_a], lk)
          \<and> (\<exists>l'. next_rr 10 lk = Inr (Some cam_c, l')))
   \<and> (\<exists>l1. next_rr 10 abc_lane = Inr (Some cam_c, l1))"
proof -
  have ok: "lane_ok abc_lane"
    by (simp add: lane_ok_def abc_lane_def)
  have e: "eligible 10 cam_a" "\<not> eligible 10 cam_b" "eligible 10 cam_c"
    by (simp_all add: eligible_def cam_a_def cam_b_def cam_c_def Stream_def)
  have r: "rotate (lane_i abc_lane) (items abc_lane) = [cam_b, cam_c, cam_a]"
    by (simp add: abc_lane_def)
  have F: "[cam_c, cam_a] = filter (eligible 10) (rotate (lane_i abc_lane) (items abc_lane))"
    using e r by simp
  have two: "replicate (length [cam_c, cam_a]) (10 :: rat) = [10, 10]"
    by (simp add: numeral_2_eq_2)
  have fnd: "find (eligible 10) (rotate (lane_i abc_lane) (items abc_lane)) = Some cam_c"
    using e r by simp
  from next_rr_round_robin [OF ok F, unfolded two] obtain l1 lk where
      a: "next_rr 10 abc_lane = Inr (find (eligible 10) (rotate (lane_i abc_lane) (items abc_lane)), l1)"
      and b: "next_rr_calls [10, 10] abc_lane = Inr (map Some [cam_c, cam_a], lk)"
      and c: "[cam_c, cam_a] \<noteq> [] \<longrightarrow> (\<exists>l'. next_rr 10 lk = Inr (Some (hd [cam_c, cam_a]), l'))"
    by blast
  have "\<exists>lk. next_rr_calls [10, 10] abc_lane = Inr ([Some cam_c, Some cam_a], lk)
          \<and> (\<exists>l'. next_rr 10 lk = Inr (Some cam_c, l'))"
    using b c by (intro exI [of _ lk]) (simp del: next_rr_calls.simps)
  moreover have "\<exists>l1. next_rr 10 abc_lane = Inr (Some cam_c, l1)"
    using a fnd by (intro exI [of _ l1]) simp
  ultimately show ?thesis
    using ok F [symmetric] by blast
qed

section \<open>Two workers on one lane\<close>

lemma five_down_items:
  "length (items five_down) = 6"
  "lane_i five_down = 0"
  "items five_down \<noteq> []"
  by (simp_all add: five_down_def)

lemma find_Some_mem: "find P xs = Some x \<Longrightarrow> P x \<and> x \<in> set xs"
  by (induction xs) (auto split: if_splits)

lemma find_last:
  "(\<forall>x\<in>set xs. \<not> P x) \<Longrightarrow> P c \<Longrightarrow> find P (xs @ [c]) = Some c"
  by (induction xs) auto

lemma five_down_find:
  "find (eligible 100) (items five_down) = Some (Stream (py ''cam5'') (py ''rtsp://10.0.0.1/5''))"
  unfolding five_down_def
  by (simp only: lane.simps, rule find_last) (auto simp: eligible_def Stream_def)

lemma ceiling_six_fifths: "\<lceil>(6 :: rat) / 5\<rceil> = 2"
  by (simp add: ceiling_eq_iff)

text \<open>
  Claim C7, as stated, fails on the code: \<^verbatim>\<open>next_rr\<close> marks nothing. With five of six
  cameras backed off, worker 0 selects the sixth and starts to probe it; while that
  probe is in flight worker 1 calls \<^verbatim>\<open>next_rr\<close>, gets the same camera and probes it
  too.
\<close>

theorem two_workers_one_stream_counterexample:
  "map_option probing (the_sys (run 32 5 (demo_cfg 5 6) [Select 0 100 100, Select 1 100 100]
          \<lparr>sys_lane = five_down, probing = [], log = []\<rparr>))
     = Some [(1, py ''cam5''), (0, py ''cam5'')]
   \<and> map_option one_probe_per_stream
        (the_sys (run 32 5 (demo_cfg 5 6) [Select 0 100 100, Select 1 100 100]
          \<lparr>sys_lane = five_down, probing = [], log = []\<rparr>))
     = Some False"
proof -
  let ?cam5 = "Stream (py ''cam5'') (py ''rtsp://10.0.0.1/5'')"
  have w: "workers_and_delay 32 (demo_cfg 5 6) five_down = (2, 5 / 3)"
    by (simp add: workers_and_delay_def five_down_items demo_cfg_def Let_def ceiling_six_fifths)
  have ok: "lane_ok five_down"
    by (simp add: lane_ok_def five_down_items)
  obtain l1 where l1: "next_rr 100 five_down = Inr (Some ?cam5, l1)" "items l1 = items five_down"
    "lane_i l1 < length (items l1)"
    using next_rr_step [of five_down 100] five_down_items five_down_find by auto
  have f1: "find (eligible 100) (rotate (lane_i l1) (items l1)) = Some ?cam5"
  proof -
    have "?cam5 \<in> set (items five_down)" "eligible 100 ?cam5"
      by (simp_all add: five_down_def eligible_def Stream_def)
    then have "find (eligible 100) (rotate (lane_i l1) (items l1)) \<noteq> None"
      using l1(2) by (auto simp: find_None_iff)
    then obtain s where s: "find (eligible 100) (rotate (lane_i l1) (items l1)) = Some s" by auto
    then have "eligible 100 s \<and> s \<in> set (items five_down)"
      using l1(2) find_Some_mem [OF s] by simp
    then have "s = ?cam5"
      by (auto simp: five_down_def eligible_def Stream_def)
    then show ?thesis using s by simp
  qed
  obtain l2 where l2: "next_rr 100 l1 = Inr (Some ?cam5, l2)"
    using next_rr_step [of l1 100] l1 five_down_items f1 by auto
  have b: "backoff_until ?cam5 = 0" "name ?cam5 = py ''cam5''"
    by (simp_all add: Stream_def)
  have wl: "workers_and_delay 32 (demo_cfg 5 6) l1 = (2, 5 / 3)"
    using l1(2) by (simp add: workers_and_delay_def five_down_items demo_cfg_def Let_def ceiling_six_fifths)
  have s1: "select 32 (demo_cfg 5 6) 0 100 100 \<lparr>sys_lane = five_down, probing = [], log = []\<rparr>
      = Next \<lparr>sys_lane = l1, probing = [(0, py ''cam5'')], log = []\<rparr>"
    using w l1(1) b five_down_items by (simp add: select_def)
  have s2: "select 32 (demo_cfg 5 6) 1 100 100 \<lparr>sys_lane = l1, probing = [(0, py ''cam5'')], log = []\<rparr>
      = Next \<lparr>sys_lane = l2, probing = [(1, py ''cam5''), (0, py ''cam5'')], log = []\<rparr>"
    using wl l2 b l1(2) five_down_items by (simp add: select_def)
  have r: "run 32 5 (demo_cfg 5 6) [Select 0 100 100, Select 1 100 100]
          \<lparr>sys_lane = five_down, probing = [], log = []\<rparr>
      = Next \<lparr>sys_lane = l2, probing = [(1, py ''cam5''), (0, py ''cam5'')], log = []\<rparr>"
    by (simp only: run.simps s1 s2 step_result.case)
  show ?thesis
    unfolding r by (simp add: one_probe_per_stream_def the_sys_def)
qed

lemma find_append_first:
  assumes "x \<in> set xs" "P x"
  shows "\<exists>y. find P (xs @ ys) = Some y \<and> y \<in> set xs"
  using assms by (induction xs) auto

text \<open>
  Claim C7, amended. \<^verbatim>\<open>next_rr\<close> runs under the lane's lock and moves the cursor past
  the stream it returns; it does not mark the stream. So two workers that call it one
  after the other get two different streams whenever at least two streams of the lane
  are eligible at the second call (names in the lane being distinct). Nothing keeps
  the second worker from the stream the first is still probing when that stream is the
  only eligible one.
\<close>

theorem next_rr_two_workers:
  assumes "lane_ok l"
    and "distinct (map name (items l))"
    and "filter (eligible now) (items l) \<noteq> []"
    and "2 \<le> length (filter (eligible now2) (items l))"
  shows "\<exists>s1 s2 l'. next_rr_calls [now, now2] l = Inr ([Some s1, Some s2], l')
           \<and> s1 \<in> set (items l) \<and> s2 \<in> set (items l) \<and> name s1 \<noteq> name s2"
proof -
  have ne: "items l \<noteq> []" using assms(3) by auto
  then have i: "lane_i l < length (items l)"
    using assms(1) by (simp add: lane_ok_def)
  let ?R = "rotate (lane_i l) (items l)"
  have "find (eligible now) ?R \<noteq> None"
    using assms(3) by (auto simp: find_None_iff filter_empty_conv)
  then obtain s1 where s1: "find (eligible now) ?R = Some s1" by auto
  obtain pre post where sp: "?R = pre @ s1 # post"
      "next_rr now l = Inr (Some s1, l\<lparr>lane_i := (lane_i l + length pre + 1) mod length (items l)\<rparr>)"
      "rotate ((lane_i l + length pre + 1) mod length (items l)) (items l) = post @ pre @ [s1]"
    using next_rr_some [OF ne i s1] by blast
  let ?l1 = "l\<lparr>lane_i := (lane_i l + length pre + 1) mod length (items l)\<rparr>"
  have ne1: "items ?l1 \<noteq> []" and i1: "lane_i ?l1 < length (items ?l1)"
    using ne by simp_all
  have R1: "rotate (lane_i ?l1) (items ?l1) = (post @ pre) @ [s1]"
    using sp(3) by simp
  have dR: "distinct (map name (pre @ s1 # post))"
    using assms(2) sp(1) by (metis distinct_rotate rotate_map)
  have setR: "set (items l) = set (pre @ s1 # post)"
    using sp(1) by (metis set_rotate)
  have dl: "distinct (items l)"
    using assms(2) by (simp add: distinct_map)
  have "\<exists>x\<in>set (post @ pre). eligible now2 x"
  proof (rule ccontr)
    assume "\<not> (\<exists>x\<in>set (post @ pre). eligible now2 x)"
    then have "set (filter (eligible now2) (items l)) \<subseteq> {s1}"
      using setR by auto
    moreover have "distinct (filter (eligible now2) (items l))"
      using dl by simp
    ultimately have "length (filter (eligible now2) (items l)) \<le> 1"
      using card_mono [of "{s1}" "set (filter (eligible now2) (items l))"]
      by (simp add: distinct_card [symmetric] del: set_filter)
    then show False using assms(4) by simp
  qed
  then obtain x where x: "x \<in> set (post @ pre)" "eligible now2 x" by blast
  obtain s2 where s2: "find (eligible now2) ((post @ pre) @ [s1]) = Some s2" "s2 \<in> set (post @ pre)"
    using find_append_first [of x "post @ pre" "eligible now2" "[s1]"] x by blast
  have f2: "find (eligible now2) (rotate (lane_i ?l1) (items ?l1)) = Some s2"
    using s2(1) R1 by simp
  obtain l2 where l2: "next_rr now2 ?l1 = Inr (Some s2, l2)"
    using next_rr_some [OF ne1 i1 f2] by blast
  have nm: "name s1 \<noteq> name s2"
    using dR s2(2) by auto
  have mem: "s1 \<in> set (items l)" "s2 \<in> set (items l)"
    using setR s2(2) by auto
  have "next_rr_calls [now, now2] l = Inr ([Some s1, Some s2], l2)"
    using sp(2) l2 by simp
  then show ?thesis using nm mem by blast
qed

theorem next_rr_two_workers_witness:
  "lane_ok abc_lane \<and> distinct (map name (items abc_lane))
   \<and> filter (eligible 10) (items abc_lane) = [cam_a, cam_c]
   \<and> (\<exists>l'. next_rr_calls [10, 10] abc_lane = Inr ([Some cam_c, Some cam_a], l'))
   \<and> name cam_c \<noteq> name cam_a"
proof -
  have ok: "lane_ok abc_lane"
    by (simp add: lane_ok_def abc_lane_def)
  have nms: "name cam_a = py ''a''" "name cam_b = py ''b''" "name cam_c = py ''c''"
    by (simp_all add: cam_a_def cam_b_def cam_c_def Stream_def)
  have d: "distinct (map name (items abc_lane))"
    by (simp add: abc_lane_def nms py_simps)
  have e: "eligible 10 cam_a" "\<not> eligible 10 cam_b" "eligible 10 cam_c"
    by (simp_all add: eligible_def cam_a_def cam_b_def cam_c_def Stream_def)
  have f: "filter (eligible 10) (items abc_lane) = [cam_a, cam_c]"
    using e by (simp add: abc_lane_def)
  have f1: "filter (eligible 10) (items abc_lane) \<noteq> []"
    and f2: "2 \<le> length (filter (eligible 10) (items abc_lane))"
    using f by simp_all
  obtain s1 s2 l' where c: "next_rr_calls [10, 10] abc_lane = Inr ([Some s1, Some s2], l')"
      "name s1 \<noteq> name s2"
    using next_rr_two_workers [OF ok d f1 f2] by blast
  have r: "filter (eligible 10) (rotate (lane_i abc_lane) (items abc_lane)) = [cam_c, cam_a]"
    using e by (simp add: abc_lane_def)
  have "\<exists>l'. next_rr_calls (replicate 2 10) abc_lane = Inr (map Some (take 2 [cam_c, cam_a]), l')"
    using next_rr_calls_round [of abc_lane 2 10] r by (auto simp: abc_lane_def)
  then have "\<exists>l'. next_rr_calls [10, 10] abc_lane = Inr ([Some cam_c, Some cam_a], l')"
    by (simp add: numeral_2_eq_2 del: next_rr_calls.simps)
  then show ?thesis
    using c ok d f nms by (auto simp: py_simps)
qed

section \<open>Reconciliation\<close>

lemma map_of_dict_set: "map_of (dict_set k v d) = (map_of d)(k \<mapsto> v)"
proof (cases "k \<in> fst ` set d")
  case False
  then have none: "map_of d k = None"
    by (simp add: map_of_eq_None_iff)
  have "map_of (d @ [(k, v)]) x = ((map_of d)(k \<mapsto> v)) x" for x
    using none by (cases "map_of d x") (auto simp: map_add_def)
  then show ?thesis
    using False by (auto simp: dict_set_def fun_eq_iff)
next
  case True
  then obtain w where w: "map_of d k = Some w"
    by (metis map_of_eq_None_iff not_Some_eq)
  have "map_of (map (\<lambda>(k', v'). if k' = k then (k', v) else (k', v')) d) x
      = (if x = k then map_option (\<lambda>_. v) (map_of d k) else map_of d x)" for x
    by (induction d) auto
  then show ?thesis
    using True w by (auto simp: dict_set_def fun_eq_iff)
qed

lemma Stream_update: "(Stream n u')\<lparr>url := u, is_rtsp := url_is_rtsp u\<rparr> = Stream n u"
  by (simp add: Stream_def)

lemma sync_streams_lookup:
  "map_of (sync_streams ss d) n =
     (case map_of (rev ss) n of
        None \<Rightarrow> map_of d n
      | Some u \<Rightarrow> Some (case map_of d n of
                         Some st \<Rightarrow> st\<lparr>url := u, is_rtsp := url_is_rtsp u\<rparr>
                       | None \<Rightarrow> Stream n u))"
proof (induction ss arbitrary: d)
  case Nil
  then show ?case by simp
next
  case (Cons a ss)
  obtain n' u' where a: "a = (n', u')" by (cases a)
  show ?case
    unfolding a sync_streams.simps Cons.IH
    by (auto simp: map_of_dict_set map_add_def Stream_update split: option.splits)
qed

lemma map_of_remove_missing:
  "map_of (remove_missing S d) n = (if n \<in> S then map_of d n else None)"
  unfolding remove_missing_def by (induction d) auto

lemma in_streams_iff: "n \<in> set (map fst ss) \<longleftrightarrow> map_of (rev ss) n \<noteq> None"
  by (simp add: map_of_eq_None_iff)

lemma state_reconcile:
  assumes "new \<noteq> sched_cfg sched"
  shows "map_of (state (reconcile new sched)) n =
     (case map_of (rev (streams new)) n of
        None \<Rightarrow> None
      | Some u \<Rightarrow> Some (case map_of (state sched) n of
                         Some st \<Rightarrow> st\<lparr>url := u, is_rtsp := url_is_rtsp u\<rparr>
                       | None \<Rightarrow> Stream n u))"
proof -
  have "state (reconcile new sched)
      = remove_missing (set (map fst (streams new))) (sync_streams (streams new) (state sched))"
    using assms by (simp add: reconcile_def rebuild_def Let_def)
  then show ?thesis
    using in_streams_iff [of n "streams new"]
    by (auto simp: map_of_remove_missing sync_streams_lookup split: option.splits)
qed

lemma lanes_reconcile:
  assumes "new \<noteq> sched_cfg sched"
  shows "items (rtsp (reconcile new sched))
           = sort_key name (filter is_rtsp (map snd (state (reconcile new sched))))"
    and "items (http (reconcile new sched))
           = sort_key name (filter (\<lambda>v. \<not> is_rtsp v) (map snd (state (reconcile new sched))))"
    and "lane_i (rtsp (reconcile new sched)) = 0" "lane_i (http (reconcile new sched)) = 0"
  using assms by (simp_all add: reconcile_def rebuild_def Let_def lane_set_def)

lemma cam1_failing_state:
  "state cam1_failing = [(py ''cam1'', demo_cam\<lparr>fails := 3, backoff_until := 50\<rparr>)]"
  "sched_cfg cam1_failing = cam1_rtsp"
  by (simp_all add: cam1_failing_def rebuild_def Let_def)

lemma http_not_rtsp: "\<not> url_is_rtsp (py ''http://10.0.0.1/mjpeg'')"
  by (simp add: url_is_rtsp_def lower_def py_simps)

lemma cfgs_differ: "cam1_http \<noteq> cam1_rtsp" "two_cams \<noteq> cam1_rtsp"
  by (simp_all add: cam1_http_def cam1_rtsp_def two_cams_def py_simps)

text \<open>
  Claim C8, as stated, fails on the code: when the url of \<^verbatim>\<open>cam1\<close> changes from RTSP to
  HTTP, the reload keeps the stream, sets its family to HTTP and moves it to the HTTP
  lane with its three failures and its backoff time; it is not deleted and recreated.
\<close>

theorem reconcile_counterexample:
  "map_of (state cam1_failing) (py ''cam1'') = Some (demo_cam\<lparr>fails := 3, backoff_until := 50\<rparr>)
   \<and> is_rtsp demo_cam
   \<and> map_of (state (reconcile cam1_http cam1_failing)) (py ''cam1'')
       = Some (demo_cam\<lparr>url := py ''http://10.0.0.1/mjpeg'', is_rtsp := False,
                         fails := 3, backoff_until := 50\<rparr>)
   \<and> map name (items (http (reconcile cam1_http cam1_failing))) = [py ''cam1'']
   \<and> map fails (items (http (reconcile cam1_http cam1_failing))) = [3]
   \<and> map backoff_until (items (http (reconcile cam1_http cam1_failing))) = [50]
   \<and> items (rtsp (reconcile cam1_http cam1_failing)) = []"
proof -
  have d: "cam1_http \<noteq> sched_cfg cam1_failing"
    by (simp add: cam1_failing_state cfgs_differ)
  have st: "state (reconcile cam1_http cam1_failing)
      = [(py ''cam1'', demo_cam\<lparr>url := py ''http://10.0.0.1/mjpeg'', is_rtsp := False,
                                 fails := 3, backoff_until := 50\<rparr>)]"
    using d
    by (simp add: reconcile_def rebuild_def Let_def cam1_failing_state cam1_http_def
        remove_missing_def dict_set_def http_not_rtsp)
  have nm: "name demo_cam = py ''cam1''"
    by (simp add: demo_cam_def Stream_def)
  show ?thesis
    using lanes_reconcile [OF d] st nm demo_cam_rtsp
    by (simp add: cam1_failing_state)
qed

text \<open>
  Claim C8, amended. On a changed configuration: a name absent from the new streams is
  removed from the state; a name in both keeps its \<^verbatim>\<open>fails\<close> and \<^verbatim>\<open>backoff_until\<close>
  and takes url and family from the new configuration (the url of the last entry with
  that name), also when the family changes; a new name gets a fresh stream with no
  failure and backoff time 0. The lanes are rebuilt from the new state, sorted by name.
\<close>

theorem reconcile_state:
  assumes "new \<noteq> sched_cfg sched"
  shows "(n \<notin> fst ` set (streams new) \<longrightarrow> map_of (state (reconcile new sched)) n = None)
       \<and> (map_of (rev (streams new)) n = Some u \<and> map_of (state sched) n = Some st \<longrightarrow>
            map_of (state (reconcile new sched)) n = Some (st\<lparr>url := u, is_rtsp := url_is_rtsp u\<rparr>)
            \<and> fails (st\<lparr>url := u, is_rtsp := url_is_rtsp u\<rparr>) = fails st
            \<and> backoff_until (st\<lparr>url := u, is_rtsp := url_is_rtsp u\<rparr>) = backoff_until st)
       \<and> (map_of (rev (streams new)) n = Some u \<and> map_of (state sched) n = None \<longrightarrow>
            map_of (state (reconcile new sched)) n = Some (Stream n u)
            \<and> fails (Stream n u) = 0 \<and> backoff_until (Stream n u) = 0)
       \<and> (n \<in> fst ` set (streams new) \<longleftrightarrow> (\<exists>u'. map_of (rev (streams new)) n = Some u'))
       \<and> items (rtsp (reconcile new sched))
            = sort_key name (filter is_rtsp (map snd (state (reconcile new sched))))
       \<and> items (http (reconcile new sched))
            = sort_key name (filter (\<lambda>v. \<not> is_rtsp v) (map snd (state (reconcile new sched))))
       \<and> sched_cfg (reconcile new sched) = new"
proof -
  have mem: "n \<in> fst ` set (streams new) \<longleftrightarrow> (\<exists>u'. map_of (rev (streams new)) n = Some u')"
    using in_streams_iff [of n "streams new"] by auto
  have gone: "n \<notin> fst ` set (streams new) \<longrightarrow> map_of (state (reconcile new sched)) n = None"
    using mem by (auto simp: state_reconcile [OF assms])
  have kept: "map_of (rev (streams new)) n = Some u \<and> map_of (state sched) n = Some st \<longrightarrow>
            map_of (state (reconcile new sched)) n = Some (st\<lparr>url := u, is_rtsp := url_is_rtsp u\<rparr>)"
    by (simp add: state_reconcile [OF assms])
  have fresh: "map_of (rev (streams new)) n = Some u \<and> map_of (state sched) n = None \<longrightarrow>
            map_of (state (reconcile new sched)) n = Some (Stream n u)"
    by (simp add: state_reconcile [OF assms])
  have c: "sched_cfg (reconcile new sched) = new"
    using assms by (simp add: reconcile_def rebuild_def Let_def)
  show ?thesis
    using mem gone kept fresh c lanes_reconcile(1,2) [OF assms]
    by (simp add: Stream_def)
qed

theorem reconcile_state_witness:
  "two_cams \<noteq> sched_cfg cam1_failing
   \<and> map_of (state (reconcile two_cams cam1_failing)) (py ''cam1'')
       = Some (demo_cam\<lparr>fails := 3, backoff_until := 50\<rparr>)
   \<and> map_of (state (reconcile two_cams cam1_failing)) (py ''cam2'')
       = Some (Stream (py ''cam2'') (py ''http://10.0.0.2/mjpeg''))
   \<and> map_of (state (reconcile cam1_http (reconcile two_cams cam1_failing))) (py ''cam2'') = None"
proof -
  have d: "two_cams \<noteq> sched_cfg cam1_failing"
    by (simp add: cam1_failing_state cfgs_differ)
  have l1: "map_of (rev (streams two_cams)) (py ''cam1'') = Some (py ''rtsp://10.0.0.1/live'')"
    and l2: "map_of (rev (streams two_cams)) (py ''cam2'') = Some (py ''http://10.0.0.2/mjpeg'')"
    by (simp_all add: two_cams_def py_simps)
  have o1: "map_of (state cam1_failing) (py ''cam1'') = Some (demo_cam\<lparr>fails := 3, backoff_until := 50\<rparr>)"
    and o2: "map_of (state cam1_failing) (py ''cam2'') = None"
    by (simp_all add: cam1_failing_state py_simps)
  have same: "(demo_cam\<lparr>fails := 3, backoff_until := 50\<rparr>)
      \<lparr>url := py ''rtsp://10.0.0.1/live'', is_rtsp := url_is_rtsp (py ''rtsp://10.0.0.1/live'')\<rparr>
      = demo_cam\<lparr>fails := 3, backoff_until := 50\<rparr>"
    by (simp add: demo_cam_def Stream_def)
  have d2: "cam1_http \<noteq> sched_cfg (reconcile two_cams cam1_failing)"
    using reconcile_state [OF d] by (simp add: cam1_http_def two_cams_def)
  have out: "py ''cam2'' \<notin> fst ` set (streams cam1_http)"
    by (simp add: cam1_http_def py_simps)
  show ?thesis
    using reconcile_state [OF d, of "py ''cam1''" "py ''rtsp://10.0.0.1/live''"
        "demo_cam\<lparr>fails := 3, backoff_until := 50\<rparr>"] l1 o1 same
      reconcile_state [OF d, of "py ''cam2''" "py ''http://10.0.0.2/mjpeg''"] l2 o2
      reconcile_state [OF d2, of "py ''cam2''"] out d
    by simp
qed

text \<open>
  Claim C9 on the code. When \<^verbatim>\<open>read_cfg\<close> raises at a tick, the reloader task ends
  with that exception: the scheduler keeps its state, but no later tick runs, so a valid
  configuration with a second camera supplied at the next tick is never applied, while
  without the failed tick it is. The start-up loader catches the same exception and
  returns a default configuration.
\<close>

theorem reloader_ends_on_unreadable_config:
  "reloader (Inl e # ticks) sched = Ended e sched
   \<and> reloader [Inl YAMLError, Inr two_cams] cam1_failing = Ended YAMLError cam1_failing
   \<and> reloader [Inr two_cams] cam1_failing = Running (reconcile two_cams cam1_failing)
   \<and> map fst (state (reconcile two_cams cam1_failing)) = [py ''cam1'', py ''cam2'']
   \<and> map fst (state cam1_failing) = [py ''cam1'']
   \<and> load_config_with_mqtt_support (Inl e)
       = \<lparr>heartbeat_seconds = Some 20, timezone = py ''UTC'', streams = []\<rparr>"
proof -
  have d: "two_cams \<noteq> sched_cfg cam1_failing"
    by (simp add: cam1_failing_state cfgs_differ)
  have "state (reconcile two_cams cam1_failing)
      = remove_missing (set (map fst (streams two_cams))) (sync_streams (streams two_cams) (state cam1_failing))"
    using d by (simp add: reconcile_def rebuild_def Let_def)
  then have "map fst (state (reconcile two_cams cam1_failing)) = [py ''cam1'', py ''cam2'']"
    by (simp add: two_cams_def cam1_failing_state remove_missing_def dict_set_def py_simps)
  then show ?thesis
    by (simp add: cam1_failing_state load_config_with_mqtt_support_def)
qed

end
